theory Spec2Isabelle
  imports Main "HOL-Library.AList"
begin

section \<open>StatsClient: the data model\<close>

text \<open>
  The development embeds \<^verbatim>\<open>src/helpers/StatsClient.ts\<close>: a singleton that buffers metric
  updates in a JavaScript \<^verbatim>\<open>Map\<close> and sends them to a StatsD client on a timer.

  \<^item> \<^verbatim>\<open>enum MetricsType { GAUGE, INCREMENT }\<close> is a datatype.
  \<^item> \<^verbatim>\<open>Tags\<close> of hot-shots is \<^verbatim>\<open>{ [key: string]: string } | string[]\<close>. An object is
    the list of its own enumerable properties in the order the engine enumerates them
    (for keys that are not array indices this is the order of insertion); an array is
    the list of its elements.
  \<^item> \<^verbatim>\<open>interface MetricOptions\<close> is a record. The field \<^verbatim>\<open>value: number\<close> is kept
    polymorphic: the code only adds two values and stores the literal zero, so every
    operation is written for any type with \<open>+\<close> and \<open>0\<close>. The doubles that are whole
    numbers, with the rounding addition of JavaScript, are the type \<open>number\<close> below.
  \<^item> A string is a list of 8-bit characters, so the code units of a modelled string are
    below 256.
\<close>

datatype MetricsType = GAUGE | INCREMENT

datatype Tags = TagObject "(string \<times> string) list" | TagArray "string list"

record 'v MetricOptions =
  metricName :: string
  type :: MetricsType
  "value" :: 'v
  tags :: "Tags option"

subsection \<open>The JavaScript \<^verbatim>\<open>Map\<close>\<close>

text \<open>
  \<^verbatim>\<open>type MetricsSet = Map<string, MetricOptions>\<close>. A \<^verbatim>\<open>Map\<close> iterates in the order in
  which its keys were first set, and \<^verbatim>\<open>set\<close> on a key that is present replaces the value
  where it stands. It is modelled as an association list in iteration order:
  \<open>AList.update\<close> replaces the first pair with the key, or appends a new pair at the end.
  A \<^verbatim>\<open>Map\<close> holds every key once, which is the invariant \<open>distinct (map fst m)\<close>; the
  operations below keep it.
\<close>

type_synonym 'v MetricsSet = "(string \<times> 'v MetricOptions) list"

definition Map_has :: "('k \<times> 'a) list \<Rightarrow> 'k \<Rightarrow> bool" where
  "Map_has m k = (map_of m k \<noteq> None)"

definition Map_get :: "('k \<times> 'a) list \<Rightarrow> 'k \<Rightarrow> 'a option" where
  "Map_get m k = map_of m k"

definition Map_set :: "('k \<times> 'a) list \<Rightarrow> 'k \<Rightarrow> 'a \<Rightarrow> ('k \<times> 'a) list" where
  "Map_set m k v = AList.update k v m"

subsection \<open>\<^verbatim>\<open>JSON.stringify\<close>, string conversion and object spread\<close>

text \<open>
  \<^verbatim>\<open>JSON.stringify(options.tags)\<close> (ECMA-262, SerializeJSONProperty): \<^verbatim>\<open>undefined\<close> gives
  \<^verbatim>\<open>undefined\<close>; an object gives \<^verbatim>\<open>{"k":"v",...}\<close> over its properties in enumeration
  order; an array gives \<^verbatim>\<open>["a",...]\<close>. QuoteJSONString escapes the double quote, the
  backslash and the code units below 0x20.
\<close>

definition hex_digit :: "nat \<Rightarrow> char" where
  "hex_digit n = ''0123456789abcdef'' ! (n mod 16)"

definition UnicodeEscape :: "char \<Rightarrow> string" where
  "UnicodeEscape c =
     [CHR 0x5C, CHR ''u'', CHR ''0'', CHR ''0'',
      hex_digit (of_char c div 16), hex_digit (of_char c mod 16)]"

definition QuoteJSONChar :: "char \<Rightarrow> string" where
  "QuoteJSONChar c =
     (if c = CHR 0x08 then [CHR 0x5C, CHR ''b'']
      else if c = CHR 0x09 then [CHR 0x5C, CHR ''t'']
      else if c = CHR 0x0A then [CHR 0x5C, CHR ''n'']
      else if c = CHR 0x0C then [CHR 0x5C, CHR ''f'']
      else if c = CHR 0x0D then [CHR 0x5C, CHR ''r'']
      else if c = CHR 0x22 then [CHR 0x5C, CHR 0x22]
      else if c = CHR 0x5C then [CHR 0x5C, CHR 0x5C]
      else if (of_char c :: nat) < 0x20 then UnicodeEscape c
      else [c])"

definition QuoteJSONString :: "string \<Rightarrow> string" where
  "QuoteJSONString s = [CHR 0x22] @ concat (map QuoteJSONChar s) @ [CHR 0x22]"

fun join :: "string \<Rightarrow> string list \<Rightarrow> string" where
  "join sep [] = []"
| "join sep [x] = x"
| "join sep (x # y # ys) = x @ sep @ join sep (y # ys)"

definition SerializeJSONObject :: "(string \<times> string) list \<Rightarrow> string" where
  "SerializeJSONObject ps =
     ''{'' @ join '','' (map (\<lambda>(k, v). QuoteJSONString k @ '':'' @ QuoteJSONString v) ps) @ ''}''"

definition SerializeJSONArray :: "string list \<Rightarrow> string" where
  "SerializeJSONArray xs = ''['' @ join '','' (map QuoteJSONString xs) @ '']''"

fun JSON_stringify :: "Tags option \<Rightarrow> string option" where
  "JSON_stringify None = None"
| "JSON_stringify (Some (TagObject ps)) = Some (SerializeJSONObject ps)"
| "JSON_stringify (Some (TagArray xs)) = Some (SerializeJSONArray xs)"

text \<open>The operand of \<^verbatim>\<open>+\<close> on strings: \<^verbatim>\<open>undefined\<close> is converted to the text "undefined".\<close>

fun ToString :: "string option \<Rightarrow> string" where
  "ToString None = ''undefined''"
| "ToString (Some s) = s"

text \<open>
  Decimal numerals: \<open>string_of_nat\<close> gives the property names of an array in a spread;
  \<open>string_of_int\<close> is the printer of whole numbers used in the concrete runs of \<^verbatim>\<open>init\<close>.
\<close>

fun string_of_nat :: "nat \<Rightarrow> string" where
  "string_of_nat n =
     (if n < 10 then [''0123456789'' ! n]
      else string_of_nat (n div 10) @ [''0123456789'' ! (n mod 10)])"

declare string_of_nat.simps [simp del]

definition string_of_int :: "int \<Rightarrow> string" where
  "string_of_int i = (if i < 0 then ''-'' @ string_of_nat (nat (- i)) else string_of_nat (nat i))"

text \<open>
  The spread \<^verbatim>\<open>{ ...tags }\<close> builds a fresh object: the properties of an object in
  their enumeration order, the elements of an array under their indices, and nothing
  for \<^verbatim>\<open>undefined\<close>.
\<close>

fun spread :: "Tags option \<Rightarrow> Tags" where
  "spread None = TagObject []"
| "spread (Some (TagObject ps)) = TagObject ps"
| "spread (Some (TagArray xs)) = TagObject (zip (map string_of_nat [0..<length xs]) xs)"

section \<open>The ledger operations\<close>

subsection \<open>\<^verbatim>\<open>addOrUpdateMetrics\<close>\<close>

text \<open>
  The argument \<^verbatim>\<open>metrics\<close> is an object; \<^verbatim>\<open>Object.entries(metrics)\<close> is the list of its
  (property name, \<^verbatim>\<open>MetricOptions\<close>) pairs in enumeration order. The callback of
  \<^verbatim>\<open>forEach\<close> destructures each pair as \<^verbatim>\<open>[metricName, options]\<close>: the variable
  \<^verbatim>\<open>metricName\<close> is the property name of the batch, and \<^verbatim>\<open>options.metricName\<close> is never
  read.

  The variable \<^verbatim>\<open>metricName\<close> of the source is written \<open>metricName'\<close>, the plain name
  being the field selector of the record.

  After \<^verbatim>\<open>this.metrics.has(customKey)\<close> has answered true,
  \<^verbatim>\<open>this.metrics.get(customKey) as MetricOptions\<close> is the stored entry; the branch for a
  missing entry is there to keep the lookup total and is never taken.

  Values are copied: the first insertion stores \<^verbatim>\<open>options.tags\<close> itself, and what the
  caller does to that object afterwards is outside the model.
\<close>

definition customKey_of :: "string \<Rightarrow> Tags option \<Rightarrow> string" where
  "customKey_of metricName' t = metricName' @ ''/'' @ ToString (JSON_stringify t)"

definition addOrUpdateMetric :: "string \<times> 'v::plus MetricOptions \<Rightarrow> 'v MetricsSet \<Rightarrow> 'v MetricsSet" where
  "addOrUpdateMetric entry m =
     (case entry of (metricName', options) \<Rightarrow>
        let customKey = customKey_of metricName' (tags options) in
        if Map_has m customKey then
          (case Map_get m customKey of
             Some metricOptions \<Rightarrow>
               Map_set m customKey
                 \<lparr>metricName = metricName',
                  type = type metricOptions,
                  value = value metricOptions + value options,
                  tags = Some (spread (tags options))\<rparr>
           | None \<Rightarrow> m)
        else
          Map_set m customKey
            \<lparr>metricName = metricName',
             type = type options,
             value = value options,
             tags = tags options\<rparr>)"

definition addOrUpdateMetrics :: "(string \<times> 'v::plus MetricOptions) list \<Rightarrow> 'v MetricsSet \<Rightarrow> 'v MetricsSet" where
  "addOrUpdateMetrics batch m = foldl (\<lambda>m entry. addOrUpdateMetric entry m) m batch"

subsection \<open>\<^verbatim>\<open>sendStats\<close> and \<^verbatim>\<open>resetIncrementMetric\<close>\<close>

text \<open>
  The StatsD client is outside the repository. A call \<^verbatim>\<open>client.gauge(name, value, tags)\<close>
  or \<^verbatim>\<open>client.increment(name, value, tags)\<close> either returns or throws, and may change the
  state \<open>'c\<close> of the world outside (the socket, the collector): the client is a parameter
  \<open>'c \<Rightarrow> 'v StatsCall \<Rightarrow> bool \<times> 'c\<close>, the boolean telling whether the call returned.
  \<^verbatim>\<open>sendStats\<close> has no \<^verbatim>\<open>try\<close>: an exception of the client leaves the \<^verbatim>\<open>forEach\<close> and the
  function at once, with the ledger as it is at that moment.
\<close>

datatype 'v StatsCall =
    gauge string 'v Tags
  | increment string 'v Tags

datatype exn = TransportError | TypeError

type_synonym ('v, 'c) StatsD = "'c \<Rightarrow> 'v StatsCall \<Rightarrow> bool \<times> 'c"

definition resetIncrementMetric ::
  "string \<Rightarrow> string \<Rightarrow> 'v::zero MetricsSet \<Rightarrow> exn + 'v MetricsSet" where
  "resetIncrementMetric customKey metricName' m =
     (case Map_get m customKey of
        None \<Rightarrow> Inl TypeError
      | Some metricOptions \<Rightarrow>
          Inr (Map_set m customKey
                 \<lparr>metricName = metricName',
                  type = type metricOptions,
                  value = 0,
                  tags = Some (spread (tags metricOptions))\<rparr>))"

text \<open>
  The loop of \<^verbatim>\<open>sendStats\<close> over the snapshot \<^verbatim>\<open>[...this.metrics.entries()]\<close>. The result
  is the exception that ended the loop, if any, with the ledger and the outside world
  as the loop left them.
\<close>

fun sendStats_forEach ::
  "('v::zero, 'c) StatsD \<Rightarrow> (string \<times> 'v MetricOptions) list \<Rightarrow> 'v MetricsSet \<times> 'c
     \<Rightarrow> exn option \<times> 'v MetricsSet \<times> 'c" where
  "sendStats_forEach statsd [] (m, w) = (None, m, w)"
| "sendStats_forEach statsd ((customKey, options) # rest) (m, w) =
     (if type options = GAUGE then
        (case statsd w (gauge (metricName options) (value options) (spread (tags options))) of
           (False, w') \<Rightarrow> (Some TransportError, m, w')
         | (True, w') \<Rightarrow> sendStats_forEach statsd rest (m, w'))
      else
        (case statsd w (increment (metricName options) (value options) (spread (tags options))) of
           (False, w') \<Rightarrow> (Some TransportError, m, w')
         | (True, w') \<Rightarrow>
             (case resetIncrementMetric customKey (metricName options) m of
                Inl e \<Rightarrow> (Some e, m, w')
              | Inr m' \<Rightarrow> sendStats_forEach statsd rest (m', w'))))"

definition sendStats ::
  "('v::zero, 'c) StatsD \<Rightarrow> 'v MetricsSet \<times> 'c \<Rightarrow> exn option \<times> 'v MetricsSet \<times> 'c" where
  "sendStats statsd s = sendStats_forEach statsd (fst s) s"

subsection \<open>The singleton: constructor and \<^verbatim>\<open>init\<close>\<close>

text \<open>
  \<^verbatim>\<open>class StatsClient\<close> has the private fields \<^verbatim>\<open>interval\<close>, \<^verbatim>\<open>metrics\<close>, \<^verbatim>\<open>client\<close>,
  \<^verbatim>\<open>logger\<close> and the static field \<^verbatim>\<open>instance\<close>. Objects have identity, so the process
  keeps a store: every \<^verbatim>\<open>StatsClient\<close> that \<^verbatim>\<open>new\<close> has built (a reference is an index
  of \<open>objects\<close>), every StatsD client built (with its \<^verbatim>\<open>protocol\<close> option), every
  \<^verbatim>\<open>setInterval\<close> registration (period and the object whose \<^verbatim>\<open>sendStats\<close> it calls) and
  every message passed to a logger. A logger is named by a number.

  \<^verbatim>\<open>timerInMs\<close> is a \<^verbatim>\<open>number\<close>; the code stores it, passes it on and prints it in a
  template string, and never computes with it. Its type \<open>'t\<close> is left open, and the
  conversion of a number to a string, which belongs to the language and not to the
  repository, is the parameter \<open>Number_toString\<close> of \<^verbatim>\<open>init\<close>.
\<close>

record 'v StatsClient =
  interval :: "nat option"
  metrics :: "'v MetricsSet"
  client :: nat
  logger :: "nat option"

record ('v, 't) Process =
  NODE_ENV :: "string option"
  "instance" :: "nat option"
  objects :: "'v StatsClient list"
  statsd_clients :: "string option list"
  intervals :: "('t \<times> nat) list"
  logged :: "(nat \<times> string) list"

text \<open>A string or \<^verbatim>\<open>undefined\<close> as a condition: only a non-empty string is truthy.\<close>

fun truthy :: "string option \<Rightarrow> bool" where
  "truthy None = False"
| "truthy (Some s) = (s \<noteq> [])"

text \<open>\<^verbatim>\<open>logger?.info(msg)\<close>\<close>

fun logger_info :: "nat option \<Rightarrow> string \<Rightarrow> ('v, 't) Process \<Rightarrow> ('v, 't) Process" where
  "logger_info None msg p = p"
| "logger_info (Some l) msg p = p\<lparr>logged := logged p @ [(l, msg)]\<rparr>"

text \<open>
  The constructor. A fresh object has no \<^verbatim>\<open>interval\<close>, so the test \<^verbatim>\<open>!this.interval\<close>
  succeeds and the timer is registered.
\<close>

definition new_StatsClient ::
  "'t \<Rightarrow> string option \<Rightarrow> nat option \<Rightarrow> ('v, 't) Process \<Rightarrow> nat \<times> ('v, 't) Process" where
  "new_StatsClient timerInMs environement logger' p =
     (let this = length (objects p);
          obj = \<lparr>interval = None, metrics = [], client = length (statsd_clients p),
                 logger = logger'\<rparr>;
          p1 = p\<lparr>statsd_clients := statsd_clients p @
                    [if environement = Some ''production'' then Some ''uds'' else None]\<rparr>;
          (obj2, p2) =
            (if interval obj = None
             then (obj\<lparr>interval := Some (length (intervals p1))\<rparr>,
                   p1\<lparr>intervals := intervals p1 @ [(timerInMs, this)]\<rparr>)
             else (obj, p1))
      in (this, p2\<lparr>objects := objects p2 @ [obj2]\<rparr>))"

text \<open>
  \<^verbatim>\<open>static init({ timerInMs = 10 * 60 * 1000, environement = process.env.NODE_ENV, logger })\<close>:
  a default applies where the caller's property is \<^verbatim>\<open>undefined\<close>.
\<close>

definition default_timerInMs :: "'t::{numeral,times} option \<Rightarrow> 't" where
  "default_timerInMs t = (case t of None \<Rightarrow> 10 * 60 * 1000 | Some x \<Rightarrow> x)"

definition default_environement :: "string option \<Rightarrow> ('v, 't) Process \<Rightarrow> string option" where
  "default_environement e p = (case e of None \<Rightarrow> NODE_ENV p | Some x \<Rightarrow> Some x)"

definition init ::
  "('t::{numeral,times} \<Rightarrow> string) \<Rightarrow> 't option \<Rightarrow> string option \<Rightarrow> nat option
     \<Rightarrow> ('v, 't) Process \<Rightarrow> nat option \<times> ('v, 't) Process" where
  "init Number_toString timerInMs_arg environement_arg logger' p =
     (let timerInMs = default_timerInMs timerInMs_arg;
          environement = default_environement environement_arg p
      in if truthy environement then
           (let p1 = logger_info logger'
                       (''StatsClient - Environement is '' @ ToString environement @
                        '' mode - Timer is '' @ Number_toString timerInMs @ '' - Initialization.'') p
            in case instance p1 of
                 Some i \<Rightarrow> (Some i, p1)
               | None \<Rightarrow>
                   (case new_StatsClient timerInMs environement logger' p1 of
                      (i, p2) \<Rightarrow> (Some i, p2\<lparr>instance := Some i\<rparr>)))
         else (None, logger_info logger' ''StatsClient - No ENV mode - No Initialization.'' p))"

text \<open>A run of \<^verbatim>\<open>init\<close> calls, one after the other, with the value each one returns.\<close>

fun init_calls ::
  "('t::{numeral,times} \<Rightarrow> string) \<Rightarrow> ('t option \<times> string option \<times> nat option) list
     \<Rightarrow> ('v, 't) Process \<Rightarrow> nat option list \<times> ('v, 't) Process" where
  "init_calls Number_toString [] p = ([], p)"
| "init_calls Number_toString ((t, e, l) # calls) p =
     (case init Number_toString t e l p of (r, p1) \<Rightarrow>
        (case init_calls Number_toString calls p1 of (rs, p2) \<Rightarrow> (r # rs, p2)))"

text \<open>The process before any call: no instance, nothing built, nothing logged.\<close>

definition fresh_process :: "string option \<Rightarrow> ('v, 't) Process" where
  "fresh_process env =
     \<lparr>NODE_ENV = env, instance = None, objects = [], statsd_clients = [], intervals = [],
      logged = []\<rparr>"

subsection \<open>Auxiliary notions for the statements\<close>

text \<open>An entry of a batch has the identity \<open>key\<close> when the code computes \<open>key\<close> for it.\<close>

definition same_identity :: "string \<Rightarrow> string \<times> 'v MetricOptions \<Rightarrow> bool" where
  "same_identity key entry = (customKey_of (fst entry) (tags (snd entry)) = key)"

text \<open>The call that \<^verbatim>\<open>sendStats\<close> makes for an entry of the snapshot.\<close>

definition emit_of :: "'v MetricOptions \<Rightarrow> 'v StatsCall" where
  "emit_of options =
     (if type options = GAUGE
      then gauge (metricName options) (value options) (spread (tags options))
      else increment (metricName options) (value options) (spread (tags options)))"

subsection \<open>Reading an escaped character back\<close>

text \<open>
  Not part of the program: the inverse of \<open>QuoteJSONChar\<close> on the front of a text, used
  to show that \<^verbatim>\<open>JSON.stringify\<close> loses nothing of a tags value.
\<close>

definition hex_value :: "char \<Rightarrow> nat" where
  "hex_value c = length (takeWhile (\<lambda>d. d \<noteq> c) ''0123456789abcdef'')"

fun UnquoteJSONChar :: "string \<Rightarrow> (char \<times> string) option" where
  "UnquoteJSONChar [] = None"
| "UnquoteJSONChar (c # cs) =
     (if c = CHR 0x22 then None
      else if c \<noteq> CHR 0x5C then Some (c, cs)
      else (case cs of
              [] \<Rightarrow> None
            | e # r \<Rightarrow>
                if e = CHR ''b'' then Some (CHR 0x08, r)
                else if e = CHR ''t'' then Some (CHR 0x09, r)
                else if e = CHR ''n'' then Some (CHR 0x0A, r)
                else if e = CHR ''f'' then Some (CHR 0x0C, r)
                else if e = CHR ''r'' then Some (CHR 0x0D, r)
                else if e = CHR 0x22 then Some (CHR 0x22, r)
                else if e = CHR 0x5C then Some (CHR 0x5C, r)
                else if e = CHR ''u'' then
                  (case r of
                     z1 # z2 # h # l # rest \<Rightarrow>
                       Some (char_of (16 * hex_value h + hex_value l), rest)
                   | _ \<Rightarrow> None)
                else None))"

subsection \<open>JavaScript numbers: the whole numbers\<close>

text \<open>
  \<^verbatim>\<open>value: number\<close> is an IEEE 754 double. The ledger operations above are written for
  any addition; this is the addition of the doubles whose value is a whole number,
  \<open>Number n\<close> being the double of value \<open>n\<close>. Every integer of magnitude up to \<open>2\<^sup>5\<^sup>3\<close> is
  a double; above, a double is a 53-bit integer times a power of two. The sum of two
  doubles is their exact sum rounded to the nearest double, a tie going to the even
  53-bit integer; the exact sum of two whole numbers is whole and so is its rounding.
  Sums of magnitude \<open>2\<^sup>1\<^sup>0\<^sup>2\<^sup>4\<close> and more, which JavaScript turns into \<^verbatim>\<open>Infinity\<close>, are
  outside the fragment.
\<close>

datatype number = Number int

text \<open>The number of binary digits of a positive integer.\<close>

function bit_length :: "int \<Rightarrow> nat" where
  "bit_length n = (if n \<le> 0 then 0 else Suc (bit_length (n div 2)))"
  by pat_completeness auto
termination
  by (relation "measure nat") auto

declare bit_length.simps [simp del]

definition round_double :: "int \<Rightarrow> int" where
  "round_double x =
     (if \<bar>x\<bar> \<le> 2 ^ 53 then x
      else
        let e = bit_length \<bar>x\<bar> - 53;
            q = \<bar>x\<bar> div 2 ^ e;
            r = \<bar>x\<bar> mod 2 ^ e;
            q' = (if 2 * r > 2 ^ e \<or> (2 * r = 2 ^ e \<and> odd q) then q + 1 else q)
        in sgn x * (q' * 2 ^ e))"

instantiation number :: "{plus, zero}"
begin

fun plus_number :: "number \<Rightarrow> number \<Rightarrow> number" where
  "plus_number (Number a) (Number b) = Number (round_double (a + b))"

definition zero_number :: number where
  "zero_number = Number 0"

instance ..

end

text \<open>
  A running sum that starts at \<open>a\<close> and adds \<open>bs\<close> in order is exact, under an embedding
  \<open>num\<close> of the integers into the values, when every addition it performs gives the
  embedded arithmetic sum, that is, when no addition rounds.
\<close>

fun exact_sums :: "(int \<Rightarrow> 'v::plus) \<Rightarrow> int \<Rightarrow> int list \<Rightarrow> bool" where
  "exact_sums num a [] = True"
| "exact_sums num a (b # bs) = (num a + num b = num (a + b) \<and> exact_sums num (a + b) bs)"

subsection \<open>A client and entries for concrete runs\<close>

text \<open>
  A StatsD client whose world outside is the list of the calls it has received, the
  failed ones too; a call for the metric named \<open>n\<close> throws.
\<close>

definition client_failing_on :: "string \<Rightarrow> ('v, 'v StatsCall list) StatsD" where
  "client_failing_on n w call =
     ((case call of gauge x v t \<Rightarrow> x \<noteq> n | increment x v t \<Rightarrow> x \<noteq> n), w @ [call])"

definition gauge_of :: "string \<Rightarrow> 'v \<Rightarrow> Tags option \<Rightarrow> 'v MetricOptions" where
  "gauge_of n v t = \<lparr>metricName = n, type = GAUGE, value = v, tags = t\<rparr>"

definition counter_of :: "string \<Rightarrow> 'v \<Rightarrow> Tags option \<Rightarrow> 'v MetricOptions" where
  "counter_of n v t = \<lparr>metricName = n, type = INCREMENT, value = v, tags = t\<rparr>"

section \<open>\<^verbatim>\<open>JSON.stringify\<close> is injective on tags\<close>

lemma hex_value_hex_digit_all: "\<forall>n \<in> set [0..<16]. hex_value (hex_digit n) = n"
  by code_simp

lemma hex_value_hex_digit: "n < 16 \<Longrightarrow> hex_value (hex_digit n) = n"
  using hex_value_hex_digit_all by simp

lemma UnquoteJSONChar_UnicodeEscape:
  "UnquoteJSONChar (UnicodeEscape c @ X) = Some (c, X)"
proof -
  have "(of_char c :: nat) < 256" by (rule nat_of_char_less_256)
  then have d: "(of_char c :: nat) div 16 < 16" by arith
  have m: "(of_char c :: nat) mod 16 < 16" by simp
  have "char_of (16 * ((of_char c :: nat) div 16) + of_char c mod 16) = c"
    by simp
  then show ?thesis
    by (simp add: UnicodeEscape_def hex_value_hex_digit [OF d] hex_value_hex_digit [OF m])
qed

lemma UnquoteJSONChar_QuoteJSONChar:
  "UnquoteJSONChar (QuoteJSONChar c @ X) = Some (c, X)"
proof (cases "(of_char c :: nat) < 0x20")
  case True
  then have "c \<noteq> CHR 0x22" "c \<noteq> CHR 0x5C" by auto
  then show ?thesis
    by (simp add: QuoteJSONChar_def UnquoteJSONChar_UnicodeEscape True)
next
  case False
  then have "c \<noteq> CHR 0x08" "c \<noteq> CHR 0x09" "c \<noteq> CHR 0x0A" "c \<noteq> CHR 0x0C" "c \<noteq> CHR 0x0D"
    by auto
  with False show ?thesis
    by (simp add: QuoteJSONChar_def)
qed

lemma QuoteJSONChar_prefix_code:
  "QuoteJSONChar c @ X = QuoteJSONChar c' @ X' \<Longrightarrow> c = c' \<and> X = X'"
proof -
  assume "QuoteJSONChar c @ X = QuoteJSONChar c' @ X'"
  then have "UnquoteJSONChar (QuoteJSONChar c @ X) = UnquoteJSONChar (QuoteJSONChar c' @ X')"
    by simp
  then show ?thesis by (simp add: UnquoteJSONChar_QuoteJSONChar)
qed

lemma UnquoteJSONChar_quote: "UnquoteJSONChar (CHR 0x22 # X) = None"
  by simp

lemma QuoteJSONChars_prefix_code:
  "concat (map QuoteJSONChar s) @ CHR 0x22 # X = concat (map QuoteJSONChar s') @ CHR 0x22 # X'
   \<Longrightarrow> s = s' \<and> X = X'"
proof (induction s arbitrary: s')
  case Nil
  show ?case
  proof (cases s')
    case Nil
    with Nil.prems show ?thesis by simp
  next
    case (Cons c' cs')
    with Nil.prems have
      "UnquoteJSONChar (CHR 0x22 # X) =
       UnquoteJSONChar (QuoteJSONChar c' @ (concat (map QuoteJSONChar cs') @ CHR 0x22 # X'))"
      by simp
    then show ?thesis
      unfolding UnquoteJSONChar_QuoteJSONChar UnquoteJSONChar_quote by simp
  qed
next
  case (Cons c cs)
  show ?case
  proof (cases s')
    case Nil
    with Cons.prems have
      "UnquoteJSONChar (QuoteJSONChar c @ (concat (map QuoteJSONChar cs) @ CHR 0x22 # X)) =
       UnquoteJSONChar (CHR 0x22 # X')"
      by simp
    then show ?thesis
      unfolding UnquoteJSONChar_QuoteJSONChar UnquoteJSONChar_quote by simp
  next
    case (Cons c' cs')
    with Cons.prems have
      "QuoteJSONChar c @ (concat (map QuoteJSONChar cs) @ CHR 0x22 # X) =
       QuoteJSONChar c' @ (concat (map QuoteJSONChar cs') @ CHR 0x22 # X')"
      by simp
    then have "c = c'" and
      "concat (map QuoteJSONChar cs) @ CHR 0x22 # X = concat (map QuoteJSONChar cs') @ CHR 0x22 # X'"
      by (auto dest: QuoteJSONChar_prefix_code)
    with Cons.IH [of cs'] Cons show ?thesis by simp
  qed
qed

lemma QuoteJSONString_prefix_code:
  "QuoteJSONString s @ X = QuoteJSONString s' @ X' \<Longrightarrow> s = s' \<and> X = X'"
  using QuoteJSONChars_prefix_code [of s X s' X'] by (simp add: QuoteJSONString_def)

lemma QuoteJSONString_starts: "\<exists>r. QuoteJSONString s = CHR 0x22 # r"
  by (simp add: QuoteJSONString_def)

text \<open>\<open>join\<close> is a first element followed by separated elements.\<close>

lemma join_Cons: "join sep (x # xs) = x @ concat (map (\<lambda>y. sep @ y) xs)"
  by (induction xs arbitrary: x) simp_all

lemma separated_prefix_code:
  assumes code: "\<And>x y X Y. f x @ X = f y @ Y \<Longrightarrow> x = y \<and> X = Y"
    and "t \<noteq> CHR '',''"
  shows "concat (map (\<lambda>y. '','' @ f y) xs) @ t # X = concat (map (\<lambda>y. '','' @ f y) ys) @ t # Y
         \<Longrightarrow> xs = ys \<and> X = Y"
proof (induction xs arbitrary: ys)
  case Nil
  with assms(2) show ?case by (cases ys) auto
next
  case (Cons x xs)
  show ?case
  proof (cases ys)
    case Nil
    with Cons.prems assms(2) show ?thesis by auto
  next
    case (Cons y ys')
    with Cons.prems have
      "f x @ (concat (map (\<lambda>y. '','' @ f y) xs) @ t # X) =
       f y @ (concat (map (\<lambda>y. '','' @ f y) ys') @ t # Y)"
      by simp
    from code [OF this] Cons.IH [of ys'] Cons show ?thesis by simp
  qed
qed

lemma join_injective:
  assumes code: "\<And>x y X Y. f x @ X = f y @ Y \<Longrightarrow> x = y \<and> X = Y"
    and starts: "\<And>x. \<exists>r. f x = CHR 0x22 # r"
    and t: "t \<noteq> CHR '',''" "t \<noteq> CHR 0x22"
    and eq: "join '','' (map f xs) @ [t] = join '','' (map f ys) @ [t]"
  shows "xs = ys"
proof (cases xs)
  case Nil
  show ?thesis
  proof (cases ys)
    case Nil
    with \<open>xs = []\<close> show ?thesis by simp
  next
    case (Cons y ys')
    from starts [of y] obtain r where "f y = CHR 0x22 # r" ..
    with eq t(2) \<open>xs = []\<close> Cons show ?thesis by (simp add: join_Cons)
  qed
next
  case (Cons x xs')
  show ?thesis
  proof (cases ys)
    case Nil
    from starts [of x] obtain r where "f x = CHR 0x22 # r" ..
    with eq t(2) Cons Nil show ?thesis by (simp add: join_Cons)
  next
    case (Cons y ys')
    with eq \<open>xs = x # xs'\<close> have
      "f x @ (concat (map (\<lambda>y. '','' @ f y) xs') @ t # []) =
       f y @ (concat (map (\<lambda>y. '','' @ f y) ys') @ t # [])"
      by (simp add: join_Cons comp_def)
    from code [OF this] have "x = y" and
      "concat (map (\<lambda>y. '','' @ f y) xs') @ t # [] = concat (map (\<lambda>y. '','' @ f y) ys') @ t # []"
      by simp_all
    with separated_prefix_code [OF code t(1), of f xs' "[]" ys' "[]"] Cons \<open>xs = x # xs'\<close>
    show ?thesis by simp
  qed
qed

lemma SerializeJSONArray_injective:
  "SerializeJSONArray xs = SerializeJSONArray ys \<Longrightarrow> xs = ys"
proof (rule join_injective [of QuoteJSONString "CHR '']''"])
  show "QuoteJSONString x @ X = QuoteJSONString y @ Y \<Longrightarrow> x = y \<and> X = Y" for x y X Y
    by (rule QuoteJSONString_prefix_code)
  show "\<exists>r. QuoteJSONString x = CHR 0x22 # r" for x
    by (rule QuoteJSONString_starts)
qed (simp_all add: SerializeJSONArray_def)

lemma SerializeJSONObject_injective:
  "SerializeJSONObject ps = SerializeJSONObject qs \<Longrightarrow> ps = qs"
proof (rule join_injective [of "\<lambda>(k, v). QuoteJSONString k @ '':'' @ QuoteJSONString v" "CHR ''}''"])
  show "(case x of (k, v) \<Rightarrow> QuoteJSONString k @ '':'' @ QuoteJSONString v) @ X =
        (case y of (k, v) \<Rightarrow> QuoteJSONString k @ '':'' @ QuoteJSONString v) @ Y
        \<Longrightarrow> x = y \<and> X = Y" for x y X Y
  proof -
    obtain k v k' v' where x: "x = (k, v)" and y: "y = (k', v')" by (cases x; cases y) auto
    assume "(case x of (k, v) \<Rightarrow> QuoteJSONString k @ '':'' @ QuoteJSONString v) @ X =
        (case y of (k, v) \<Rightarrow> QuoteJSONString k @ '':'' @ QuoteJSONString v) @ Y"
    then have "QuoteJSONString k @ ('':'' @ QuoteJSONString v @ X) =
        QuoteJSONString k' @ ('':'' @ QuoteJSONString v' @ Y)"
      by (simp add: x y)
    from QuoteJSONString_prefix_code [OF this] have "k = k'"
      and "QuoteJSONString v @ X = QuoteJSONString v' @ Y" by simp_all
    with QuoteJSONString_prefix_code [of v X v' Y] show "x = y \<and> X = Y"
      by (simp add: x y)
  qed
  show "\<exists>r. (case x of (k, v) \<Rightarrow> QuoteJSONString k @ '':'' @ QuoteJSONString v) = CHR 0x22 # r" for x
    by (cases x) (simp add: QuoteJSONString_def)
qed (simp_all add: SerializeJSONObject_def)

lemma hd_ToString_JSON_stringify:
  "hd (ToString (JSON_stringify t)) =
     (case t of None \<Rightarrow> CHR ''u'' | Some (TagObject ps) \<Rightarrow> CHR ''{'' | Some (TagArray xs) \<Rightarrow> CHR ''['')"
  by (simp add: SerializeJSONObject_def SerializeJSONArray_def split: option.split Tags.split)

lemma ToString_JSON_stringify_injective:
  assumes eq: "ToString (JSON_stringify t) = ToString (JSON_stringify t')"
  shows "t = t'"
proof -
  from eq have "hd (ToString (JSON_stringify t)) = hd (ToString (JSON_stringify t'))"
    by simp
  then have shape:
    "(case t of None \<Rightarrow> CHR ''u'' | Some (TagObject ps) \<Rightarrow> CHR ''{'' | Some (TagArray xs) \<Rightarrow> CHR ''['') =
     (case t' of None \<Rightarrow> CHR ''u'' | Some (TagObject ps) \<Rightarrow> CHR ''{'' | Some (TagArray xs) \<Rightarrow> CHR ''['')"
    by (simp only: hd_ToString_JSON_stringify)
  show ?thesis
  proof (cases t)
    case None
    with shape show ?thesis
      by (simp split: option.splits Tags.splits)
  next
    case (Some a)
    show ?thesis
    proof (cases a)
      case (TagObject ps)
      with shape Some obtain qs where t': "t' = Some (TagObject qs)"
        by (auto split: option.splits Tags.splits)
      with eq Some TagObject have "SerializeJSONObject ps = SerializeJSONObject qs" by simp
      then have "ps = qs" by (rule SerializeJSONObject_injective)
      with Some TagObject t' show ?thesis by simp
    next
      case (TagArray xs)
      with shape Some obtain ys where t': "t' = Some (TagArray ys)"
        by (auto split: option.splits Tags.splits)
      with eq Some TagArray have "SerializeJSONArray xs = SerializeJSONArray ys" by simp
      then have "xs = ys" by (rule SerializeJSONArray_injective)
      with Some TagArray t' show ?thesis by simp
    qed
  qed
qed

lemma customKey_of_same_name: "customKey_of k t = customKey_of k t' \<longleftrightarrow> t = t'"
  by (auto simp: customKey_of_def dest: ToString_JSON_stringify_injective)

section \<open>Properties of the ledger\<close>

subsection \<open>The map\<close>

lemma Map_get_set_same: "Map_get (Map_set m k v) k = Some v"
  by (simp add: Map_get_def Map_set_def update_conv')

lemma Map_get_set_other: "k' \<noteq> k \<Longrightarrow> Map_get (Map_set m k v) k' = Map_get m k'"
  by (simp add: Map_get_def Map_set_def update_conv')

lemma distinct_Map_set: "distinct (map fst m) \<Longrightarrow> distinct (map fst (Map_set m k v))"
  by (simp add: Map_set_def distinct_update)

lemma Map_get_member: "distinct (map fst m) \<Longrightarrow> (k, e) \<in> set m \<Longrightarrow> Map_get m k = Some e"
  by (simp add: Map_get_def)

lemma Map_get_SomeD: "Map_get m k = Some e \<Longrightarrow> (k, e) \<in> set m"
  by (simp add: Map_get_def map_of_SomeD)

lemma Map_set_keys: "Map_get m key = Some e \<Longrightarrow> map fst (Map_set m key v) = map fst m"
proof -
  assume "Map_get m key = Some e"
  then have "key \<in> fst ` set m"
    by (auto simp: Map_get_def dest: map_of_SomeD intro: rev_image_eqI)
  then show ?thesis
    by (simp add: Map_set_def update_keys)
qed

subsection \<open>One entry of a batch, and a whole batch\<close>

lemma addOrUpdateMetric_present:
  "Map_get m (customKey_of k (tags opts)) = Some stored \<Longrightarrow>
   addOrUpdateMetric (k, opts) m =
     Map_set m (customKey_of k (tags opts))
       \<lparr>metricName = k, type = type stored, value = value stored + value opts,
        tags = Some (spread (tags opts))\<rparr>"
  by (simp add: addOrUpdateMetric_def Map_has_def Map_get_def)

lemma addOrUpdateMetric_absent:
  "Map_get m (customKey_of k (tags opts)) = None \<Longrightarrow>
   addOrUpdateMetric (k, opts) m =
     Map_set m (customKey_of k (tags opts))
       \<lparr>metricName = k, type = type opts, value = value opts, tags = tags opts\<rparr>"
  by (simp add: addOrUpdateMetric_def Map_has_def Map_get_def)

lemma addOrUpdateMetric_other:
  "customKey_of k (tags opts) \<noteq> key \<Longrightarrow>
   Map_get (addOrUpdateMetric (k, opts) m) key = Map_get m key"
  by (cases "Map_get m (customKey_of k (tags opts))")
     (simp_all add: addOrUpdateMetric_present addOrUpdateMetric_absent Map_get_set_other)

lemma addOrUpdateMetrics_Nil: "addOrUpdateMetrics [] m = m"
  by (simp add: addOrUpdateMetrics_def)

lemma addOrUpdateMetrics_Cons:
  "addOrUpdateMetrics (e # es) m = addOrUpdateMetrics es (addOrUpdateMetric e m)"
  by (simp add: addOrUpdateMetrics_def)

lemma addOrUpdateMetrics_append:
  "addOrUpdateMetrics (xs @ ys) m = addOrUpdateMetrics ys (addOrUpdateMetrics xs m)"
  by (simp add: addOrUpdateMetrics_def)

lemma addOrUpdateMetrics_single: "addOrUpdateMetrics [e] m = addOrUpdateMetric e m"
  by (simp add: addOrUpdateMetrics_def)

text \<open>
  An entry that is in the ledger keeps its kind through a batch, and its value becomes
  the old value plus, from left to right, the value of every entry of the batch with its
  identity.
\<close>

lemma addOrUpdateMetrics_lookup:
  "Map_get m key = Some e \<Longrightarrow>
   \<exists>e'. Map_get (addOrUpdateMetrics batch m) key = Some e' \<and> type e' = type e \<and>
        value e' = foldl (+) (value e)
                     (map (\<lambda>entry. value (snd entry)) (filter (same_identity key) batch))"
proof (induction batch arbitrary: m e)
  case Nil
  then show ?case by (simp add: addOrUpdateMetrics_Nil)
next
  case (Cons entry batch)
  obtain k opts where entry: "entry = (k, opts)" by (cases entry)
  show ?case
  proof (cases "customKey_of k (tags opts) = key")
    case True
    let ?e1 = "\<lparr>metricName = k, type = type e, value = value e + value opts,
        tags = Some (spread (tags opts))\<rparr>"
    have "Map_get (addOrUpdateMetric entry m) key = Some ?e1"
      using Cons.prems True by (simp add: entry addOrUpdateMetric_present Map_get_set_same)
    from Cons.IH [OF this] show ?thesis
      using True by (simp add: addOrUpdateMetrics_Cons entry same_identity_def)
  next
    case False
    then have "Map_get (addOrUpdateMetric entry m) key = Some e"
      using Cons.prems by (simp add: entry addOrUpdateMetric_other)
    from Cons.IH [OF this] show ?thesis
      using False by (simp add: addOrUpdateMetrics_Cons entry same_identity_def)
  qed
qed

lemma distinct_addOrUpdateMetric:
  "distinct (map fst m) \<Longrightarrow> distinct (map fst (addOrUpdateMetric entry m))"
  by (cases entry; cases "Map_get m (customKey_of (fst entry) (tags (snd entry)))")
     (simp_all add: addOrUpdateMetric_present addOrUpdateMetric_absent distinct_Map_set)

lemma distinct_addOrUpdateMetrics:
  "distinct (map fst m) \<Longrightarrow> distinct (map fst (addOrUpdateMetrics batch m))"
  by (induction batch arbitrary: m)
     (simp_all add: addOrUpdateMetrics_Nil addOrUpdateMetrics_Cons distinct_addOrUpdateMetric)

subsection \<open>The loop of \<^verbatim>\<open>sendStats\<close>\<close>

lemma resetIncrementMetric_present:
  "Map_get m key = Some e \<Longrightarrow>
   resetIncrementMetric key n m =
     Inr (Map_set m key \<lparr>metricName = n, type = type e, value = 0, tags = Some (spread (tags e))\<rparr>)"
  by (simp add: resetIncrementMetric_def)

text \<open>one step of the loop\<close>

lemma forEach_Cons_throw:
  "statsd w (emit_of options) = (False, w') \<Longrightarrow>
   sendStats_forEach statsd ((key, options) # rest) (m, w) = (Some TransportError, m, w')"
  by (cases "type options = GAUGE") (simp_all add: emit_of_def)

lemma forEach_Cons_gauge:
  "statsd w (emit_of options) = (True, w') \<Longrightarrow> type options = GAUGE \<Longrightarrow>
   sendStats_forEach statsd ((key, options) # rest) (m, w) = sendStats_forEach statsd rest (m, w')"
  by (simp add: emit_of_def)

lemma forEach_Cons_increment:
  "statsd w (emit_of options) = (True, w') \<Longrightarrow> type options \<noteq> GAUGE \<Longrightarrow>
   Map_get m key = Some e \<Longrightarrow>
   sendStats_forEach statsd ((key, options) # rest) (m, w) =
     sendStats_forEach statsd rest
       (Map_set m key \<lparr>metricName = metricName options, type = type e, value = 0,
                        tags = Some (spread (tags e))\<rparr>, w')"
  by (simp add: emit_of_def resetIncrementMetric_present)

lemma forEach_Cons_type_error:
  "statsd w (emit_of options) = (True, w') \<Longrightarrow> type options \<noteq> GAUGE \<Longrightarrow>
   Map_get m key = None \<Longrightarrow>
   sendStats_forEach statsd ((key, options) # rest) (m, w) = (Some TypeError, m, w')"
  by (simp add: emit_of_def resetIncrementMetric_def)

lemma forEach_Cons_cases [consumes 1, case_names throw gauge type_error increment]:
  assumes "sendStats_forEach statsd ((key, options) # rest) (m, w) = (r, m', w')"
  obtains
    w1 where "statsd w (emit_of options) = (False, w1)" "r = Some TransportError" "m' = m" "w' = w1"
  | w1 where "statsd w (emit_of options) = (True, w1)" "type options = GAUGE"
      "sendStats_forEach statsd rest (m, w1) = (r, m', w')"
  | w1 where "statsd w (emit_of options) = (True, w1)" "type options \<noteq> GAUGE"
      "Map_get m key = None" "r = Some TypeError" "m' = m" "w' = w1"
  | w1 e where "statsd w (emit_of options) = (True, w1)" "type options \<noteq> GAUGE"
      "Map_get m key = Some e"
      "sendStats_forEach statsd rest
         (Map_set m key \<lparr>metricName = metricName options, type = type e, value = 0,
                          tags = Some (spread (tags e))\<rparr>, w1) = (r, m', w')"
proof -
  consider (failed) w1 where "statsd w (emit_of options) = (False, w1)"
    | (returned) w1 where "statsd w (emit_of options) = (True, w1)"
    by (cases "statsd w (emit_of options)") (metis (full_types))
  then show thesis
  proof cases
    case failed
    have "sendStats_forEach statsd ((key, options) # rest) (m, w) = (Some TransportError, m, w1)"
      by (rule forEach_Cons_throw [where statsd = statsd and w = w, OF failed])
    with assms have "r = Some TransportError" "m' = m" "w' = w1" by simp_all
    with failed show thesis by (rule that(1))
  next
    case returned
    show thesis
    proof (cases "type options = GAUGE")
      case True
      have "sendStats_forEach statsd ((key, options) # rest) (m, w) =
            sendStats_forEach statsd rest (m, w1)"
        by (rule forEach_Cons_gauge [where statsd = statsd and w = w, OF returned True])
      with assms have "sendStats_forEach statsd rest (m, w1) = (r, m', w')" by simp
      with returned True show thesis by (rule that(2))
    next
      case False
      show thesis
      proof (cases "Map_get m key")
        case None
        have "sendStats_forEach statsd ((key, options) # rest) (m, w) = (Some TypeError, m, w1)"
          by (rule forEach_Cons_type_error [where statsd = statsd and w = w, OF returned False None])
        with assms have "r = Some TypeError" "m' = m" "w' = w1" by simp_all
        with returned False None show thesis by (rule that(3))
      next
        case (Some e)
        note step = forEach_Cons_increment [where statsd = statsd and w = w and rest = rest, OF returned False Some]
        from assms have "sendStats_forEach statsd rest
         (Map_set m key \<lparr>metricName = metricName options, type = type e, value = 0,
                          tags = Some (spread (tags e))\<rparr>, w1) = (r, m', w')"
          unfolding step .
        with returned False Some show thesis by (rule that(4))
      qed
    qed
  qed
qed

lemma forEach_append:
  "sendStats_forEach statsd before (m, w) = (None, m1, w1) \<Longrightarrow>
   sendStats_forEach statsd (before @ rest) (m, w) = sendStats_forEach statsd rest (m1, w1)"
proof (induction before arbitrary: m w)
  case Nil
  then show ?case by simp
next
  case (Cons a before)
  obtain key options where a: "a = (key, options)" by (cases a)
  from Cons.prems [unfolded a] show ?case
  proof (cases rule: forEach_Cons_cases)
    case (gauge w2)
    then show ?thesis
      by (simp add: a forEach_Cons_gauge Cons.IH del: sendStats_forEach.simps)
  next
    case (increment w2 e)
    then show ?thesis
      by (simp add: a forEach_Cons_increment Cons.IH del: sendStats_forEach.simps)
  qed simp_all
qed

text \<open>keys are kept by the loop\<close>

lemma forEach_keys:
  "sendStats_forEach statsd es (m, w) = (r, m', w') \<Longrightarrow> map fst m' = map fst m"
proof (induction es arbitrary: m w)
  case Nil
  then show ?case by simp
next
  case (Cons a es)
  obtain key options where a: "a = (key, options)" by (cases a)
  from Cons.prems [unfolded a] show ?case
  proof (cases rule: forEach_Cons_cases)
    case (gauge w1)
    then show ?thesis by (simp add: Cons.IH)
  next
    case (increment w1 e)
    from Cons.IH [OF increment(4)] increment(3) show ?thesis
      by (simp add: Map_set_keys)
  qed simp_all
qed

text \<open>kinds are kept by the loop\<close>

lemma forEach_type:
  "sendStats_forEach statsd es (m, w) = (r, m', w') \<Longrightarrow>
   map_option type (Map_get m' k) = map_option type (Map_get m k)"
proof (induction es arbitrary: m w)
  case Nil
  then show ?case by simp
next
  case (Cons a es)
  obtain key options where a: "a = (key, options)" by (cases a)
  from Cons.prems [unfolded a] show ?case
  proof (cases rule: forEach_Cons_cases)
    case (gauge w1)
    then show ?thesis by (simp add: Cons.IH)
  next
    case (increment w1 e)
    from Cons.IH [OF increment(4)] increment(3) show ?thesis
      by (cases "k = key") (simp_all add: Map_get_set_same Map_get_set_other)
  qed simp_all
qed

text \<open>an entry is untouched as long as no counter of the snapshot has its key\<close>

lemma forEach_kept:
  "sendStats_forEach statsd es (m, w) = (r, m', w') \<Longrightarrow>
   \<forall>(k', o') \<in> set es. k' = k \<longrightarrow> type o' = GAUGE \<Longrightarrow>
   Map_get m' k = Map_get m k"
proof (induction es arbitrary: m w)
  case Nil
  then show ?case by simp
next
  case (Cons a es)
  obtain key options where a: "a = (key, options)" by (cases a)
  from Cons.prems(2) have rest: "\<forall>(k', o') \<in> set es. k' = k \<longrightarrow> type o' = GAUGE"
    and here: "type options \<noteq> GAUGE \<Longrightarrow> k \<noteq> key" by (auto simp: a)
  from Cons.prems(1) [unfolded a] show ?case
  proof (cases rule: forEach_Cons_cases)
    case (gauge w1)
    then show ?thesis by (simp add: Cons.IH rest)
  next
    case (increment w1 e)
    from Cons.IH [OF increment(4) rest] here [OF increment(2)] show ?thesis
      by (simp add: Map_get_set_other)
  qed simp_all
qed

text \<open>a value that is zero stays zero\<close>

lemma forEach_zero_kept:
  "sendStats_forEach statsd es (m, w) = (r, m', w') \<Longrightarrow>
   map_option value (Map_get m k) = Some 0 \<Longrightarrow>
   map_option value (Map_get m' k) = Some 0"
proof (induction es arbitrary: m w)
  case Nil
  then show ?case by simp
next
  case (Cons a es)
  obtain key options where a: "a = (key, options)" by (cases a)
  from Cons.prems(1) [unfolded a] show ?case
  proof (cases rule: forEach_Cons_cases)
    case (throw w1)
    with Cons.prems(2) show ?thesis by simp
  next
    case (gauge w1)
    with Cons.prems(2) show ?thesis by (simp add: Cons.IH)
  next
    case (type_error w1)
    with Cons.prems(2) show ?thesis by simp
  next
    case (increment w1 e)
    show ?thesis
    proof (rule Cons.IH [OF increment(4)])
      show "map_option value
          (Map_get (Map_set m key \<lparr>metricName = metricName options, type = type e, value = 0,
                          tags = Some (spread (tags e))\<rparr>) k) = Some 0"
        using Cons.prems(2)
        by (cases "k = key") (simp_all add: Map_get_set_same Map_get_set_other)
    qed
  qed
qed

text \<open>a counter of the snapshot is zero after a loop that ran to its end\<close>

lemma forEach_counter_reset:
  "sendStats_forEach statsd es (m, w) = (None, m', w') \<Longrightarrow>
   (k, opts) \<in> set es \<Longrightarrow> type opts \<noteq> GAUGE \<Longrightarrow>
   map_option value (Map_get m' k) = Some 0"
proof (induction es arbitrary: m w)
  case Nil
  then show ?case by simp
next
  case (Cons a es)
  obtain key options where a: "a = (key, options)" by (cases a)
  from Cons.prems(1) [unfolded a] show ?case
  proof (cases rule: forEach_Cons_cases)
    case (gauge w1)
    with Cons.prems(2,3) have "(k, opts) \<in> set es" by (auto simp: a)
    from Cons.IH [OF gauge(3) this Cons.prems(3)] show ?thesis .
  next
    case (increment w1 e)
    show ?thesis
    proof (cases "(k, opts) = (key, options)")
      case True
      show ?thesis
        by (rule forEach_zero_kept [OF increment(4)]) (use True in \<open>simp add: Map_get_set_same\<close>)
    next
      case False
      with Cons.prems(2) have "(k, opts) \<in> set es" by (auto simp: a)
      from Cons.IH [OF increment(4) this Cons.prems(3)] show ?thesis .
    qed
  qed simp_all
qed

text \<open>the lookup in resetIncrementMetric never misses\<close>

lemma forEach_no_TypeError:
  "sendStats_forEach statsd es (m, w) = (r, m', w') \<Longrightarrow>
   fst ` set es \<subseteq> fst ` set m \<Longrightarrow> r \<noteq> Some TypeError"
proof (induction es arbitrary: m w)
  case Nil
  then show ?case by auto
next
  case (Cons a es)
  obtain key options where a: "a = (key, options)" by (cases a)
  from Cons.prems(2) have key: "key \<in> fst ` set m" and sub: "fst ` set es \<subseteq> fst ` set m"
    by (auto simp: a)
  from Cons.prems(1) [unfolded a] show ?case
  proof (cases rule: forEach_Cons_cases)
    case (throw w1)
    then show ?thesis by simp
  next
    case (gauge w1)
    from gauge(3) sub show ?thesis by (rule Cons.IH)
  next
    case (type_error w1)
    with key show ?thesis
      by (simp add: Map_get_def map_of_eq_None_iff)
  next
    case (increment w1 e)
    from sub have "fst ` set es \<subseteq> fst ` set (Map_set m key v)" for v
      by (auto simp: Map_set_def dom_update)
    with increment(4) show ?thesis by (rule Cons.IH)
  qed
qed

text \<open>
  A flush keeps the keys of the ledger, hence the invariant of the map, and the only
  exception that ends it is one of the client.
\<close>

lemma sendStats_keys: "sendStats statsd (m, w) = (r, m', w') \<Longrightarrow> map fst m' = map fst m"
  by (simp add: sendStats_def forEach_keys)

lemma distinct_sendStats:
  "distinct (map fst m) \<Longrightarrow> sendStats statsd (m, w) = (r, m', w') \<Longrightarrow> distinct (map fst m')"
  by (simp add: sendStats_keys)

lemma sendStats_no_TypeError: "sendStats statsd (m, w) = (r, m', w') \<Longrightarrow> r \<noteq> Some TypeError"
  by (rule forEach_no_TypeError [of statsd m m w r m' w']) (simp_all add: sendStats_def)

section \<open>The claims about \<^verbatim>\<open>addOrUpdateMetrics\<close>\<close>

lemma addOrUpdateMetric_ignores_name:
  "addOrUpdateMetric (k, opts\<lparr>metricName := n\<rparr>) m = addOrUpdateMetric (k, opts) m"
  by (simp add: addOrUpdateMetric_def Let_def split: option.split)

lemma round_double_exact: "\<bar>x\<bar> \<le> 2 ^ 53 \<Longrightarrow> round_double x = x"
  by (simp add: round_double_def)

lemma update_calls_concat:
  "foldl (\<lambda>m batch. addOrUpdateMetrics batch m) m calls = addOrUpdateMetrics (concat calls) m"
  by (induction calls arbitrary: m) (simp_all add: addOrUpdateMetrics_Nil addOrUpdateMetrics_append)

lemma addOrUpdateMetrics_first_insertion:
  "Map_get m key = None \<Longrightarrow> filter (same_identity key) batch = first # others \<Longrightarrow>
   \<exists>e. Map_get (addOrUpdateMetrics batch m) key = Some e \<and> type e = type (snd first) \<and>
       value e = foldl (+) (value (snd first)) (map (\<lambda>entry. value (snd entry)) others)"
proof (induction batch arbitrary: m)
  case Nil
  then show ?case by simp
next
  case (Cons entry batch)
  obtain k opts where entry: "entry = (k, opts)" by (cases entry)
  show ?case
  proof (cases "same_identity key entry")
    case True
    with Cons.prems(2) have first: "first = entry"
      and others: "others = filter (same_identity key) batch" by simp_all
    from True have key: "customKey_of k (tags opts) = key"
      by (simp add: same_identity_def entry)
    with Cons.prems(1) have
      "Map_get (addOrUpdateMetric entry m) key =
       Some \<lparr>metricName = k, type = type opts, value = value opts, tags = tags opts\<rparr>"
      by (simp add: entry addOrUpdateMetric_absent Map_get_set_same)
    from addOrUpdateMetrics_lookup [OF this, of batch] show ?thesis
      by (simp add: addOrUpdateMetrics_Cons first others entry)
  next
    case False
    with Cons.prems(2) have rest: "filter (same_identity key) batch = first # others" by simp
    from False have "customKey_of k (tags opts) \<noteq> key"
      by (simp add: same_identity_def entry)
    with Cons.prems(1) have "Map_get (addOrUpdateMetric entry m) key = None"
      by (simp add: entry addOrUpdateMetric_other)
    from Cons.IH [OF this rest] show ?thesis
      by (simp add: addOrUpdateMetrics_Cons)
  qed
qed

lemma foldl_exact_sums:
  "exact_sums num a ns \<Longrightarrow> foldl (+) (num a) (map num ns) = num (a + sum_list ns)"
  by (induction ns arbitrary: a) (simp_all add: add.assoc)

text \<open>
  For the doubles, no addition of a running sum rounds as long as every partial sum
  stays within \<open>2\<^sup>5\<^sup>3\<close> in magnitude.
\<close>

lemma exact_sums_Number:
  "\<forall>j \<le> length ns. \<bar>a + sum_list (take j ns)\<bar> \<le> 2 ^ 53 \<Longrightarrow> exact_sums Number a ns"
proof (induction ns arbitrary: a)
  case Nil
  then show ?case by simp
next
  case (Cons b bs)
  from Cons.prems have "1 \<le> length (b # bs) \<longrightarrow> \<bar>a + sum_list (take 1 (b # bs))\<bar> \<le> 2 ^ 53"
    by blast
  then have here: "\<bar>a + b\<bar> \<le> 2 ^ 53" by simp
  have "\<forall>j \<le> length bs. \<bar>(a + b) + sum_list (take j bs)\<bar> \<le> 2 ^ 53"
  proof (intro allI impI)
    fix j
    assume "j \<le> length bs"
    then have "Suc j \<le> length (b # bs)" by simp
    with Cons.prems have "\<bar>a + sum_list (take (Suc j) (b # bs))\<bar> \<le> 2 ^ 53" by blast
    then show "\<bar>(a + b) + sum_list (take j bs)\<bar> \<le> 2 ^ 53" by (simp add: add.assoc)
  qed
  from Cons.IH [OF this] here show ?case
    by (simp add: round_double_exact)
qed

subsection \<open>C1: an update of kind Gauge for an identity that is in the ledger\<close>

text \<open>
  C1 as stated (the update replaces the stored value) fails: the scenario of the
  specification, a gauge of 4 and then a gauge of 7 for the same identity, leaves 11 in
  the ledger and not 7.
\<close>

theorem gauge_update_replaces_counterexample:
  "Map_has (addOrUpdateMetrics
       [(''y'', gauge_of ''queueDepth'' (4::int) (Some (TagObject [(''shard'', ''1'')])))] [])
     (customKey_of ''y'' (Some (TagObject [(''shard'', ''1'')])))
   \<and> map_option value
      (Map_get (addOrUpdateMetrics
          [(''y'', gauge_of ''queueDepth'' 7 (Some (TagObject [(''shard'', ''1'')])))]
          (addOrUpdateMetrics
             [(''y'', gauge_of ''queueDepth'' (4::int) (Some (TagObject [(''shard'', ''1'')])))] []))
        (customKey_of ''y'' (Some (TagObject [(''shard'', ''1'')]))))
     = Some 11
   \<and> (11::int) \<noteq> 7"
  by code_simp

text \<open>
  C1, amended: for every identity that is in the ledger, an update of kind Gauge for it
  stores the sum of the stored value and the new value, as an update of kind Counter
  does; the entry keeps the stored kind and takes the name and a copy of the tags of the
  update.
\<close>

theorem gauge_update_adds:
  assumes "Map_get m (customKey_of k (tags opts)) = Some stored"
    and "type opts = GAUGE"
  shows "Map_get (addOrUpdateMetrics [(k, opts)] m) (customKey_of k (tags opts)) =
           Some \<lparr>metricName = k, type = type stored, value = value stored + value opts,
                 tags = Some (spread (tags opts))\<rparr>"
  using assms(1) by (simp add: addOrUpdateMetrics_single addOrUpdateMetric_present Map_get_set_same)

theorem gauge_update_adds_witness:
  "Map_get [(''queueDepth/undefined'', gauge_of ''queueDepth'' (4::int) None)]
      (customKey_of ''queueDepth'' (tags (gauge_of ''depth'' (7::int) None)))
     = Some (gauge_of ''queueDepth'' 4 None)
   \<and> type (gauge_of ''depth'' (7::int) None) = GAUGE
   \<and> Map_get (addOrUpdateMetrics [(''queueDepth'', gauge_of ''depth'' 7 None)]
               [(''queueDepth/undefined'', gauge_of ''queueDepth'' (4::int) None)])
        (customKey_of ''queueDepth'' None)
     = Some (gauge_of ''queueDepth'' 11 (Some (TagObject [])))"
proof -
  have h1: "Map_get [(''queueDepth/undefined'', gauge_of ''queueDepth'' (4::int) None)]
      (customKey_of ''queueDepth'' (tags (gauge_of ''depth'' (7::int) None)))
     = Some (gauge_of ''queueDepth'' 4 None)"
    by (simp add: Map_get_def customKey_of_def gauge_of_def)
  have h2: "type (gauge_of ''depth'' (7::int) None) = GAUGE"
    by (simp add: gauge_of_def)
  from gauge_update_adds [OF h1 h2] h1 h2 show ?thesis
    by (simp add: gauge_of_def)
qed

subsection \<open>C2: the name under which a metric is stored\<close>

text \<open>
  C2 as stated (the entry's own \<^verbatim>\<open>metricName\<close> is used and the key of the batch is
  discarded) fails: the batch \<^verbatim>\<open>{y: {metricName: "queueDepth", ...}}\<close> is stored
  under the name \<^verbatim>\<open>y\<close> and the ledger key \<^verbatim>\<open>y/undefined\<close>.
\<close>

theorem batch_key_discarded_counterexample:
  "map (metricName \<circ> snd)
     (addOrUpdateMetrics [(''y'', gauge_of ''queueDepth'' (4::int) None)] []) = [''y'']
   \<and> map fst (addOrUpdateMetrics [(''y'', gauge_of ''queueDepth'' (4::int) None)] [])
       = [''y/undefined'']
   \<and> ''y'' \<noteq> ''queueDepth''
   \<and> ''y/undefined'' \<noteq> customKey_of ''queueDepth'' None"
  by code_simp

text \<open>
  C2, amended: for every batch and every entry in it, the merge uses the key of the
  batch: the \<^verbatim>\<open>metricName\<close> fields of the entries can be overwritten at will without
  changing the ledger that results, the entry written for a batch key \<open>k\<close> stands under
  the ledger key computed from \<open>k\<close> and carries the name \<open>k\<close>, and \<open>k\<close> is the name that
  the next flush passes to the client.
\<close>

theorem batch_key_names_the_metric:
  "addOrUpdateMetrics (map (\<lambda>(k, opts). (k, opts\<lparr>metricName := rename k opts\<rparr>)) batch) m
     = addOrUpdateMetrics batch m
   \<and> (\<exists>e. Map_get (addOrUpdateMetric (k, opts) m) (customKey_of k (tags opts)) = Some e
          \<and> metricName e = k)
   \<and> snd (snd (sendStats (client_failing_on n) (addOrUpdateMetrics [(k, opts)] [], []))) =
       [if type opts = GAUGE then gauge k (value opts) (spread (tags opts))
        else increment k (value opts) (spread (tags opts))]"
proof (intro conjI)
  show "addOrUpdateMetrics (map (\<lambda>(k, opts). (k, opts\<lparr>metricName := rename k opts\<rparr>)) batch) m
     = addOrUpdateMetrics batch m"
    by (induction batch arbitrary: m)
       (auto simp: addOrUpdateMetrics_Nil addOrUpdateMetrics_Cons addOrUpdateMetric_ignores_name)
  show "\<exists>e. Map_get (addOrUpdateMetric (k, opts) m) (customKey_of k (tags opts)) = Some e
          \<and> metricName e = k"
    by (cases "Map_get m (customKey_of k (tags opts))")
       (simp_all add: addOrUpdateMetric_present addOrUpdateMetric_absent Map_get_set_same)
  show "snd (snd (sendStats (client_failing_on n) (addOrUpdateMetrics [(k, opts)] [], []))) =
       [if type opts = GAUGE then gauge k (value opts) (spread (tags opts))
        else increment k (value opts) (spread (tags opts))]"
    by (cases "k = n"; cases "type opts = GAUGE")
       (simp_all add: sendStats_def addOrUpdateMetrics_def addOrUpdateMetric_def Map_has_def
          Map_get_def Map_set_def client_failing_on_def resetIncrementMetric_def)
qed

subsection \<open>C6: counters add up\<close>

text \<open>
  C6 as stated (after every run of counter updates the value is the arithmetic sum of the
  values supplied) fails: a \<^verbatim>\<open>number\<close> is a double and its addition rounds. Three calls
  with the values \<open>2\<^sup>5\<^sup>3\<close>, 1 and 1 leave 9007199254740992 in the ledger, where the
  arithmetic sum is 9007199254740994.
\<close>

theorem counter_updates_rounding_counterexample:
  "map_option value
     (Map_get
        (foldl (\<lambda>m batch. addOrUpdateMetrics batch m) []
           [[(''reqs'', counter_of ''reqs'' (Number 9007199254740992) None)],
            [(''reqs'', counter_of ''reqs'' (Number 1) None)],
            [(''reqs'', counter_of ''reqs'' (Number 1) None)]])
        (customKey_of ''reqs'' None))
     = Some (Number 9007199254740992)
   \<and> sum_list [9007199254740992, 1, 1] = (9007199254740994 :: int)
   \<and> Number 9007199254740992 \<noteq> Number 9007199254740994"
  by (simp add: addOrUpdateMetrics_def addOrUpdateMetric_def Map_has_def Map_get_def Map_set_def
      customKey_of_def counter_of_def round_double_def bit_length.simps Let_def)

text \<open>
  C6, amended: for every run of update calls, each a batch of any entries, on a ledger
  where the identity is absent or stands at zero (as a flush leaves it), with no flush
  in between and all entries of that identity of kind Counter, the value of the entry
  afterwards is the values supplied for that identity, taken through the batches in
  order and added from left to right by the addition of the value type; it is the
  arithmetic sum of the values supplied whenever none of these additions rounds. For
  doubles that are whole numbers none rounds while the partial sums stay within
  \<open>2\<^sup>5\<^sup>3\<close> in magnitude (\<open>exact_sums_Number\<close>).
\<close>

theorem counter_updates_sum:
  fixes calls :: "(string \<times> 'v::{plus,zero} MetricOptions) list list"
  assumes start: "case Map_get m key of None \<Rightarrow> True | Some stored \<Rightarrow> value stored = 0"
    and entries: "filter (same_identity key) (concat calls) = first # others"
    and kinds: "\<forall>entry \<in> set (first # others). type (snd entry) = INCREMENT"
  shows "\<exists>e. Map_get (foldl (\<lambda>m batch. addOrUpdateMetrics batch m) m calls) key = Some e
           \<and> value e =
               (case Map_get m key of
                  None \<Rightarrow> foldl (+) (value (snd first)) (map (\<lambda>entry. value (snd entry)) others)
                | Some stored \<Rightarrow>
                    foldl (+) 0 (map (\<lambda>entry. value (snd entry)) (first # others)))
           \<and> (\<forall>num ns. map (\<lambda>entry. value (snd entry)) (first # others) = map num ns
                 \<and> num 0 = 0 \<and> exact_sums num 0 ns
                 \<longrightarrow> value e = num (sum_list ns))"
proof (cases "Map_get m key")
  case None
  from addOrUpdateMetrics_first_insertion [OF None entries]
  obtain e where e: "Map_get (addOrUpdateMetrics (concat calls) m) key = Some e"
    and v: "value e = foldl (+) (value (snd first)) (map (\<lambda>entry. value (snd entry)) others)"
    by blast
  have "value e = num (sum_list ns)"
    if vs: "map (\<lambda>entry. value (snd entry)) (first # others) = map num ns"
      and ex: "exact_sums num 0 ns" for num :: "int \<Rightarrow> 'v" and ns
  proof -
    from vs obtain n ns' where ns: "ns = n # ns'" by (cases ns) auto
    with vs have f: "value (snd first) = num n"
      and r: "map (\<lambda>entry. value (snd entry)) others = map num ns'" by simp_all
    from ex ns have "exact_sums num n ns'" by simp
    from foldl_exact_sums [OF this] show ?thesis
      by (simp add: v f r ns)
  qed
  with e v None show ?thesis
    by (auto simp: update_calls_concat)
next
  case (Some stored)
  with start have zero: "value stored = 0" by simp
  from addOrUpdateMetrics_lookup [OF Some, of "concat calls"] entries zero
  obtain e where e: "Map_get (addOrUpdateMetrics (concat calls) m) key = Some e"
    and v: "value e = foldl (+) 0 (map (\<lambda>entry. value (snd entry)) (first # others))"
    by auto
  have "value e = num (sum_list ns)"
    if vs: "map (\<lambda>entry. value (snd entry)) (first # others) = map num ns"
      and z: "num 0 = 0" and ex: "exact_sums num 0 ns" for num :: "int \<Rightarrow> 'v" and ns
  proof -
    from foldl_exact_sums [OF ex] have "foldl (+) (num 0) (map num ns) = num (sum_list ns)"
      by simp
    with z have "foldl (+) 0 (map num ns) = num (sum_list ns)" by simp
    with v show ?thesis unfolding vs by simp
  qed
  with e v Some show ?thesis
    by (auto simp: update_calls_concat)
qed

theorem counter_updates_sum_witness:
  "map_option value
     (Map_get
        (foldl (\<lambda>m batch. addOrUpdateMetrics batch m) []
           [[(''other'', counter_of ''other'' (Number 7) None),
             (''reqs'', counter_of ''reqs'' (Number 1) None)],
            [(''reqs'', counter_of ''reqs'' (Number 1) None),
             (''more'', gauge_of ''more'' (Number 9) None)],
            [(''reqs'', counter_of ''reqs'' (Number 3) None)]])
        (customKey_of ''reqs'' None))
     = Some (Number 5)"
proof -
  let ?calls = "[[(''other'', counter_of ''other'' (Number 7) None),
             (''reqs'', counter_of ''reqs'' (Number 1) None)],
            [(''reqs'', counter_of ''reqs'' (Number 1) None),
             (''more'', gauge_of ''more'' (Number 9) None)],
            [(''reqs'', counter_of ''reqs'' (Number 3) None)]]"
  let ?first = "(''reqs'', counter_of ''reqs'' (Number 1) None)"
  let ?others = "[(''reqs'', counter_of ''reqs'' (Number 1) None),
                (''reqs'', counter_of ''reqs'' (Number 3) None)]"
  have h1: "case Map_get ([] :: number MetricsSet) (customKey_of ''reqs'' None) of
              None \<Rightarrow> True | Some stored \<Rightarrow> value stored = 0"
    by (simp add: Map_get_def)
  have h2: "filter (same_identity (customKey_of ''reqs'' None)) (concat ?calls) = ?first # ?others"
    by (simp add: same_identity_def customKey_of_def counter_of_def gauge_of_def)
  have h3: "\<forall>entry \<in> set (?first # ?others). type (snd entry) = INCREMENT"
    by (simp add: counter_of_def)
  have h4: "map (\<lambda>entry. value (snd entry)) (?first # ?others) = map Number [1, 1, 3]"
    by (simp add: counter_of_def)
  have h5: "Number 0 = 0" by (simp add: zero_number_def)
  have h6: "exact_sums Number 0 [1, 1, 3]"
    by (simp add: round_double_def)
  from counter_updates_sum [OF h1 h2 h3] obtain e where
    e: "Map_get (foldl (\<lambda>m batch. addOrUpdateMetrics batch m) [] ?calls)
          (customKey_of ''reqs'' None) = Some e"
    and ex: "\<forall>num ns. map (\<lambda>entry. value (snd entry)) (?first # ?others) = map num ns
                 \<and> num 0 = 0 \<and> exact_sums num 0 ns
                 \<longrightarrow> value e = num (sum_list ns)"
    by blast
  from ex h4 h5 h6 have "value e = Number (sum_list [1, 1, 3])" by blast
  with e show ?thesis by simp
qed

subsection \<open>C9: the kind of an entry is the first one\<close>

text \<open>
  C9: when an identity is inserted for the first time and any batch \<open>later\<close> follows
  (several calls in a row are the batch of their entries in order, by
  \<open>addOrUpdateMetrics_append\<close>), the entry has the kind of the first insertion, whatever
  kinds the later entries carry, and its value is the first value plus, in order, the
  value of every later entry of that identity.
\<close>

theorem kind_fixed_at_first_insertion:
  assumes "Map_get m (customKey_of k (tags first)) = None"
  shows "\<exists>e. Map_get (addOrUpdateMetrics later (addOrUpdateMetrics [(k, first)] m))
               (customKey_of k (tags first)) = Some e
           \<and> type e = type first
           \<and> value e = foldl (+) (value first)
                 (map (\<lambda>entry. value (snd entry))
                    (filter (same_identity (customKey_of k (tags first))) later))"
proof -
  have "Map_get (addOrUpdateMetrics [(k, first)] m) (customKey_of k (tags first)) =
        Some \<lparr>metricName = k, type = type first, value = value first, tags = tags first\<rparr>"
    using assms by (simp add: addOrUpdateMetrics_single addOrUpdateMetric_absent Map_get_set_same)
  from addOrUpdateMetrics_lookup [OF this, of later] show ?thesis by simp
qed

theorem kind_fixed_at_first_insertion_witness:
  "Map_get [] (customKey_of ''reqs'' (tags (counter_of ''reqs'' (1::int) None))) = None
   \<and> (\<exists>e. Map_get (addOrUpdateMetrics
                [(''reqs'', gauge_of ''reqs'' 5 None), (''other'', counter_of ''other'' 9 None)]
                (addOrUpdateMetrics [(''reqs'', counter_of ''reqs'' (1::int) None)] []))
             (customKey_of ''reqs'' None) = Some e
          \<and> type e = INCREMENT \<and> value e = 6)"
proof -
  have h: "Map_get ([] :: int MetricsSet) (customKey_of ''reqs'' (tags (counter_of ''reqs'' (1::int) None))) = None"
    by (simp add: Map_get_def)
  from kind_fixed_at_first_insertion [OF h,
      of "[(''reqs'', gauge_of ''reqs'' 5 None), (''other'', counter_of ''other'' 9 None)]"]
  show ?thesis
    by (simp add: Map_get_def counter_of_def gauge_of_def same_identity_def customKey_of_def)
qed

subsection \<open>C10: no tags and empty tags\<close>

text \<open>
  C10: for every name, the ledger key of an update without \<^verbatim>\<open>tags\<close> ends in
  \<^verbatim>\<open>/undefined\<close> and the key of an update with the empty object ends in \<^verbatim>\<open>/{}\<close>; the
  two differ, and the two updates on an empty ledger leave two entries, each with its
  own value.
\<close>

theorem omitted_tags_and_empty_tags_differ:
  "customKey_of n None = n @ ''/undefined''
   \<and> customKey_of n (Some (TagObject [])) = n @ ''/{}''
   \<and> customKey_of n None \<noteq> customKey_of n (Some (TagObject []))
   \<and> addOrUpdateMetrics [(n, opts2\<lparr>tags := Some (TagObject [])\<rparr>)]
       (addOrUpdateMetrics [(n, opts1\<lparr>tags := None\<rparr>)] [])
     = [(n @ ''/undefined'',
          \<lparr>metricName = n, type = type opts1, value = value opts1, tags = None\<rparr>),
        (n @ ''/{}'',
          \<lparr>metricName = n, type = type opts2, value = value opts2, tags = Some (TagObject [])\<rparr>)]"
  by (simp add: customKey_of_def SerializeJSONObject_def addOrUpdateMetrics_def
      addOrUpdateMetric_def Map_has_def Map_get_def Map_set_def)

subsection \<open>C3: the order of the tags\<close>

text \<open>
  C3 as stated (tag maps with the same pairs in a different insertion order give the same
  identity) fails: \<^verbatim>\<open>{a:"1",b:"2"}\<close> and \<^verbatim>\<open>{b:"2",a:"1"}\<close> hold the same pairs, have
  different ledger keys, and two updates under one name leave two entries.
\<close>

theorem tag_order_counterexample:
  "set [(''a'', ''1''), (''b'', ''2'')] = set [(''b'', ''2''), (''a'', ''1'')]
   \<and> customKey_of ''m'' (Some (TagObject [(''a'', ''1''), (''b'', ''2'')]))
       \<noteq> customKey_of ''m'' (Some (TagObject [(''b'', ''2''), (''a'', ''1'')]))
   \<and> length (addOrUpdateMetrics
         [(''m'', counter_of ''m'' (1::int) (Some (TagObject [(''b'', ''2''), (''a'', ''1'')])))]
         (addOrUpdateMetrics
           [(''m'', counter_of ''m'' (1::int) (Some (TagObject [(''a'', ''1''), (''b'', ''2'')])))]
           [])) = 2"
proof -
  have "set [(''a'', ''1''), (''b'', ''2'')] = set [(''b'', ''2''), (''a'', ''1'')]"
    by auto
  moreover have
    "customKey_of ''m'' (Some (TagObject [(''a'', ''1''), (''b'', ''2'')]))
       \<noteq> customKey_of ''m'' (Some (TagObject [(''b'', ''2''), (''a'', ''1'')]))"
    by code_simp
  moreover have
    "length (addOrUpdateMetrics
         [(''m'', counter_of ''m'' (1::int) (Some (TagObject [(''b'', ''2''), (''a'', ''1'')])))]
         (addOrUpdateMetrics
           [(''m'', counter_of ''m'' (1::int) (Some (TagObject [(''a'', ''1''), (''b'', ''2'')])))]
           [])) = 2"
    by code_simp
  ultimately show ?thesis by blast
qed

text \<open>
  C3, amended: two updates with the same name resolve to the same identity exactly
  when their tags are the same value: both absent, or objects that enumerate the same
  pairs in the same order, or arrays with the same elements in the same order. On an
  empty ledger they are then merged into one entry, and leave two entries otherwise.
\<close>

theorem identity_is_name_and_enumerated_tags:
  "(customKey_of k t1 = customKey_of k t2 \<longleftrightarrow> t1 = t2)
   \<and> addOrUpdateMetrics [(k, opts2)] (addOrUpdateMetrics [(k, opts1)] []) =
       (if tags opts1 = tags opts2
        then [(customKey_of k (tags opts1),
               \<lparr>metricName = k, type = type opts1, value = value opts1 + value opts2,
                tags = Some (spread (tags opts2))\<rparr>)]
        else [(customKey_of k (tags opts1),
               \<lparr>metricName = k, type = type opts1, value = value opts1, tags = tags opts1\<rparr>),
              (customKey_of k (tags opts2),
               \<lparr>metricName = k, type = type opts2, value = value opts2, tags = tags opts2\<rparr>)])"
proof
  show "customKey_of k t1 = customKey_of k t2 \<longleftrightarrow> t1 = t2"
    by (rule customKey_of_same_name)
  show "addOrUpdateMetrics [(k, opts2)] (addOrUpdateMetrics [(k, opts1)] []) =
       (if tags opts1 = tags opts2
        then [(customKey_of k (tags opts1),
               \<lparr>metricName = k, type = type opts1, value = value opts1 + value opts2,
                tags = Some (spread (tags opts2))\<rparr>)]
        else [(customKey_of k (tags opts1),
               \<lparr>metricName = k, type = type opts1, value = value opts1, tags = tags opts1\<rparr>),
              (customKey_of k (tags opts2),
               \<lparr>metricName = k, type = type opts2, value = value opts2, tags = tags opts2\<rparr>)])"
    by (simp add: addOrUpdateMetrics_def addOrUpdateMetric_def Map_has_def Map_get_def
        Map_set_def customKey_of_same_name)
qed

section \<open>The claims about \<^verbatim>\<open>sendStats\<close>\<close>

subsection \<open>C4: a call of the client that throws\<close>

text \<open>
  C4 as stated (after a failed call every remaining entry is still processed) fails: with
  the counters \<^verbatim>\<open>a\<close> and \<^verbatim>\<open>b\<close> in the ledger and a client that throws on \<^verbatim>\<open>a\<close>, the
  flush ends with the exception, the client has received the call for \<^verbatim>\<open>a\<close> only, and
  \<^verbatim>\<open>b\<close> keeps its value 2.
\<close>

theorem flush_continues_after_throw_counterexample:
  "sendStats (client_failing_on ''a'')
     ([(''a/undefined'', counter_of ''a'' (1::int) None),
       (''b/undefined'', counter_of ''b'' 2 None)], [])
   = (Some TransportError,
      [(''a/undefined'', counter_of ''a'' 1 None),
       (''b/undefined'', counter_of ''b'' 2 None)],
      [increment ''a'' 1 (TagObject [])])
   \<and> increment ''b'' (2::int) (TagObject []) \<notin> set [increment ''a'' 1 (TagObject [])]
   \<and> value (counter_of ''b'' (2::int) None) \<noteq> 0"
  by code_simp

text \<open>
  C4, amended: if the entries before one entry are processed without an exception and
  the call of the client for that entry throws, the flush ends there with that exception:
  the ledger and the world outside are as the entries before and the failed call left
  them, and the failing entry and every remaining entry stand in the ledger as they stood
  before the flush (no call is made for a remaining entry and no counter among them is
  reset).
\<close>

theorem flush_stops_at_first_throw:
  assumes "distinct (map fst m)"
    and "m = before @ (key, options) # remaining"
    and "sendStats_forEach statsd before (m, w) = (None, m1, w1)"
    and "statsd w1 (emit_of options) = (False, w2)"
  shows "sendStats statsd (m, w) = (Some TransportError, m1, w2)
         \<and> (\<forall>(k, e) \<in> set ((key, options) # remaining). Map_get m1 k = Some e)"
proof
  have "sendStats_forEach statsd (before @ (key, options) # remaining) (m, w) =
        sendStats_forEach statsd ((key, options) # remaining) (m1, w1)"
    by (rule forEach_append [OF assms(3)])
  also have "\<dots> = (Some TransportError, m1, w2)"
    by (rule forEach_Cons_throw [where statsd = statsd and w = w1, OF assms(4)])
  finally show "sendStats statsd (m, w) = (Some TransportError, m1, w2)"
    by (simp add: sendStats_def assms(2))
  show "\<forall>(k, e) \<in> set ((key, options) # remaining). Map_get m1 k = Some e"
  proof (clarify)
    fix k e
    assume mem: "(k, e) \<in> set ((key, options) # remaining)"
    with assms(2) have "(k, e) \<in> set m" by auto
    with assms(1) have before: "Map_get m k = Some e" by (rule Map_get_member)
    from assms(1) have "fst ` set before \<inter> fst ` set ((key, options) # remaining) = {}"
      unfolding assms(2) by simp
    moreover from mem have "k \<in> fst ` set ((key, options) # remaining)"
      by (rule image_eqI [rotated]) simp
    ultimately have "k \<notin> fst ` set before" by blast
    then have "\<forall>(k', o') \<in> set before. k' = k \<longrightarrow> type o' = GAUGE"
      by (auto simp: image_iff)
    from forEach_kept [OF assms(3) this] before show "Map_get m1 k = Some e" by simp
  qed
qed

theorem flush_stops_at_first_throw_witness:
  "sendStats (client_failing_on ''b'')
     ([(''a/undefined'', counter_of ''a'' (1::int) None),
       (''b/undefined'', counter_of ''b'' 2 None),
       (''c/undefined'', counter_of ''c'' 3 None)], [])
   = (Some TransportError,
      [(''a/undefined'', counter_of ''a'' 0 (Some (TagObject []))),
       (''b/undefined'', counter_of ''b'' 2 None),
       (''c/undefined'', counter_of ''c'' 3 None)],
      [increment ''a'' 1 (TagObject []), increment ''b'' 2 (TagObject [])])"
proof -
  let ?m = "[(''a/undefined'', counter_of ''a'' (1::int) None),
       (''b/undefined'', counter_of ''b'' 2 None),
       (''c/undefined'', counter_of ''c'' 3 None)]"
  let ?m1 = "[(''a/undefined'', counter_of ''a'' (0::int) (Some (TagObject []))),
       (''b/undefined'', counter_of ''b'' 2 None),
       (''c/undefined'', counter_of ''c'' 3 None)]"
  have h1: "distinct (map fst ?m)" by simp
  have h2: "?m = [(''a/undefined'', counter_of ''a'' (1::int) None)] @
        (''b/undefined'', counter_of ''b'' 2 None) # [(''c/undefined'', counter_of ''c'' 3 None)]"
    by simp
  have h3: "sendStats_forEach (client_failing_on ''b'')
        [(''a/undefined'', counter_of ''a'' (1::int) None)] (?m, []) =
        (None, ?m1, [increment ''a'' 1 (TagObject [])])"
    by code_simp
  have h4: "client_failing_on ''b'' [increment ''a'' (1::int) (TagObject [])]
        (emit_of (counter_of ''b'' 2 None)) =
        (False, [increment ''a'' 1 (TagObject []), increment ''b'' 2 (TagObject [])])"
    by code_simp
  from flush_stops_at_first_throw [OF h1 h2 h3 h4] show ?thesis by simp
qed

subsection \<open>C5: counters after a flush\<close>

text \<open>
  C5 as stated (every counter is zero after a flush, whether or not the call for it
  succeeded) fails: when the call for the counter \<^verbatim>\<open>reqs\<close> throws, the flush ends and the
  counter keeps its value 5.
\<close>

theorem flush_counter_not_reset_counterexample:
  "sendStats (client_failing_on ''reqs'') ([(''reqs/undefined'', counter_of ''reqs'' (5::int) None)], [])
     = (Some TransportError,
        [(''reqs/undefined'', counter_of ''reqs'' 5 None)],
        [increment ''reqs'' 5 (TagObject [])])
   \<and> type (counter_of ''reqs'' (5::int) None) = INCREMENT
   \<and> value (counter_of ''reqs'' (5::int) None) \<noteq> 0"
  by code_simp

text \<open>
  C5, amended: after a flush that ran to its end, that is, in which no call of the
  client threw, every entry of the ledger whose kind is Counter has the value zero,
  whatever its value before.
\<close>

theorem flush_resets_counters:
  assumes "distinct (map fst m)"
    and "sendStats statsd (m, w) = (None, m', w')"
  shows "\<forall>(k, e) \<in> set m'. type e = INCREMENT \<longrightarrow> value e = 0"
proof (clarify)
  fix k e
  assume mem: "(k, e) \<in> set m'" and ty: "type e = INCREMENT"
  from assms(2) have run: "sendStats_forEach statsd m (m, w) = (None, m', w')"
    by (simp add: sendStats_def)
  from forEach_keys [OF run] assms(1) have "distinct (map fst m')" by simp
  from Map_get_member [OF this mem] have after: "Map_get m' k = Some e" .
  from forEach_type [OF run, of k] after obtain c where c: "Map_get m k = Some c" "type c = type e"
    by (cases "Map_get m k") auto
  from c(1) have "(k, c) \<in> set m" by (rule Map_get_SomeD)
  moreover from c(2) ty have "type c \<noteq> GAUGE" by simp
  ultimately have "map_option value (Map_get m' k) = Some 0"
    by (rule forEach_counter_reset [OF run])
  with after show "value e = 0" by simp
qed

theorem flush_resets_counters_witness:
  "distinct (map fst [(''q/undefined'', gauge_of ''q'' (4::int) None),
                      (''reqs/undefined'', counter_of ''reqs'' 5 None)])
   \<and> sendStats (client_failing_on ''none'')
        ([(''q/undefined'', gauge_of ''q'' (4::int) None),
          (''reqs/undefined'', counter_of ''reqs'' 5 None)], [])
      = (None,
         [(''q/undefined'', gauge_of ''q'' 4 None),
          (''reqs/undefined'', counter_of ''reqs'' 0 (Some (TagObject [])))],
         [gauge ''q'' 4 (TagObject []), increment ''reqs'' 5 (TagObject [])])
   \<and> map (value \<circ> snd) (filter (\<lambda>(k, e). type e = INCREMENT)
         [(''q/undefined'', gauge_of ''q'' (4::int) None),
          (''reqs/undefined'', counter_of ''reqs'' 0 (Some (TagObject [])))]) = [0]"
proof -
  have h1: "distinct (map fst [(''q/undefined'', gauge_of ''q'' (4::int) None),
                      (''reqs/undefined'', counter_of ''reqs'' 5 None)])"
    by simp
  have h2: "sendStats (client_failing_on ''none'')
        ([(''q/undefined'', gauge_of ''q'' (4::int) None),
          (''reqs/undefined'', counter_of ''reqs'' 5 None)], [])
      = (None,
         [(''q/undefined'', gauge_of ''q'' 4 None),
          (''reqs/undefined'', counter_of ''reqs'' 0 (Some (TagObject [])))],
         [gauge ''q'' 4 (TagObject []), increment ''reqs'' 5 (TagObject [])])"
    by code_simp
  from flush_resets_counters [OF h1 h2] h1 h2 show ?thesis
    by (simp add: gauge_of_def counter_of_def)
qed

subsection \<open>C7: gauges after a flush\<close>

text \<open>
  C7: a flush leaves every gauge as it is. Whether the flush ran to its end or was ended
  by an exception, the entries of kind Gauge after it are the entries of kind Gauge
  before it, under the same keys and with the same values.
\<close>

theorem flush_keeps_gauges:
  assumes "distinct (map fst m)"
    and "sendStats statsd (m, w) = (r, m', w')"
    and "type e = GAUGE"
  shows "Map_get m' k = Some e \<longleftrightarrow> Map_get m k = Some e"
proof -
  from assms(2) have run: "sendStats_forEach statsd m (m, w) = (r, m', w')"
    by (simp add: sendStats_def)
  have kept: "Map_get m' k = Some g" if "Map_get m k = Some g" "type g = GAUGE" for g
  proof -
    have "\<forall>(k', o') \<in> set m. k' = k \<longrightarrow> type o' = GAUGE"
      using that Map_get_member [OF assms(1)] by auto
    from forEach_kept [OF run this] that(1) show ?thesis by simp
  qed
  show ?thesis
  proof
    assume after: "Map_get m' k = Some e"
    from forEach_type [OF run, of k] after obtain g where g: "Map_get m k = Some g" "type g = type e"
      by (cases "Map_get m k") auto
    from g(2) assms(3) have "type g = GAUGE" by simp
    from kept [OF g(1) this] after have "g = e" by simp
    with g(1) show "Map_get m k = Some e" by simp
  next
    assume "Map_get m k = Some e"
    then show "Map_get m' k = Some e" using assms(3) by (rule kept)
  qed
qed

theorem flush_keeps_gauges_witness:
  "distinct (map fst [(''q/undefined'', gauge_of ''q'' (4::int) None),
                      (''reqs/undefined'', counter_of ''reqs'' 5 None)])
   \<and> type (gauge_of ''q'' (4::int) None) = GAUGE
   \<and> Map_get [(''q/undefined'', gauge_of ''q'' (4::int) None),
              (''reqs/undefined'', counter_of ''reqs'' 5 None)] ''q/undefined''
       = Some (gauge_of ''q'' 4 None)
   \<and> Map_get (fst (snd (sendStats (client_failing_on ''none'')
        ([(''q/undefined'', gauge_of ''q'' (4::int) None),
          (''reqs/undefined'', counter_of ''reqs'' 5 None)], [])))) ''q/undefined''
       = Some (gauge_of ''q'' 4 None)"
proof -
  let ?m = "[(''q/undefined'', gauge_of ''q'' (4::int) None),
                      (''reqs/undefined'', counter_of ''reqs'' 5 None)]"
  let ?s = "sendStats (client_failing_on ''none'') (?m, [])"
  have h1: "distinct (map fst ?m)" by simp
  have h2: "?s = (fst ?s, fst (snd ?s), snd (snd ?s))" by simp
  have h3: "type (gauge_of ''q'' (4::int) None) = GAUGE" by (simp add: gauge_of_def)
  have h4: "Map_get ?m ''q/undefined'' = Some (gauge_of ''q'' 4 None)" by (simp add: Map_get_def)
  from flush_keeps_gauges [OF h1 h2 h3, of "''q/undefined''"] h1 h3 h4 show ?thesis by simp
qed

section \<open>The claim about \<^verbatim>\<open>init\<close>\<close>

text \<open>
  The static field \<^verbatim>\<open>instance\<close> is written by \<^verbatim>\<open>init\<close> only, and only while it is unset.
  From any state of the process in which it is set, whatever has happened to the
  ledger of the object in between, a call of \<^verbatim>\<open>init\<close> builds nothing and returns the
  instance or nothing, as its designator decides.
\<close>

lemma logger_info_fields [simp]:
  "NODE_ENV (logger_info l msg p) = NODE_ENV p"
  "instance (logger_info l msg p) = instance p"
  "objects (logger_info l msg p) = objects p"
  "statsd_clients (logger_info l msg p) = statsd_clients p"
  "intervals (logger_info l msg p) = intervals p"
  by (cases l; simp)+

lemma init_returns_instance:
  "init pr t e l p = (Some i, p') \<Longrightarrow> instance p' = Some i"
  by (auto simp: init_def Let_def split: if_splits option.splits prod.splits)

lemma init_with_instance:
  assumes "instance p = Some i" and "init pr t e l p = (r, p')"
  shows "r = (if truthy (default_environement e p) then Some i else None)
         \<and> instance p' = Some i \<and> NODE_ENV p' = NODE_ENV p \<and> objects p' = objects p
         \<and> statsd_clients p' = statsd_clients p \<and> intervals p' = intervals p"
  using assms by (auto simp: init_def Let_def split: if_splits)

lemma init_calls_with_instance:
  "instance p = Some i \<Longrightarrow> init_calls pr calls p = (rs, p') \<Longrightarrow>
   rs = map (\<lambda>(t, e, l). if truthy (default_environement e p) then Some i else None) calls
   \<and> instance p' = Some i \<and> NODE_ENV p' = NODE_ENV p \<and> objects p' = objects p
   \<and> statsd_clients p' = statsd_clients p \<and> intervals p' = intervals p"
proof (induction calls arbitrary: p rs p')
  case Nil
  then show ?case by simp
next
  case (Cons c calls)
  obtain t e l where c: "c = (t, e, l)" by (cases c)
  obtain r p1 where first: "init pr t e l p = (r, p1)" by (cases "init pr t e l p")
  obtain rs1 p2 where rest: "init_calls pr calls p1 = (rs1, p2)"
    by (cases "init_calls pr calls p1")
  note one = init_with_instance [OF Cons.prems(1) first]
  then have inst: "instance p1 = Some i" by simp
  note more = Cons.IH [OF inst rest]
  from one have env: "default_environement e' p1 = default_environement e' p" for e'
    by (simp add: default_environement_def split: option.split)
  from Cons.prems(2) have "rs = r # rs1" "p' = p2"
    by (simp_all add: c first rest)
  with one more show ?case
    by (simp add: c env)
qed

subsection \<open>C8: later calls of \<^verbatim>\<open>init\<close>\<close>

text \<open>
  C8 as stated (every later call, with any arguments, returns the existing instance)
  fails: after \<^verbatim>\<open>init({environement: "production"})\<close> has built the instance, a call
  \<^verbatim>\<open>init({})\<close> in a process without \<^verbatim>\<open>NODE_ENV\<close>, or a call with the empty designator,
  returns \<^verbatim>\<open>undefined\<close>.
\<close>

theorem init_any_arguments_counterexample:
  "fst (init string_of_int None (Some ''production'') None (fresh_process None :: (int, int) Process)) = Some 0
   \<and> fst (init string_of_int None None None
          (snd (init string_of_int None (Some ''production'') None (fresh_process None :: (int, int) Process)))) = None
   \<and> fst (init string_of_int None (Some '''') None
          (snd (init string_of_int None (Some ''production'') None (fresh_process None :: (int, int) Process)))) = None"
  by (simp add: init_def default_timerInMs_def default_environement_def fresh_process_def
      new_StatsClient_def Let_def)

text \<open>
  C8, amended: after a call of \<^verbatim>\<open>init\<close> has returned the instance, every later call
  whose environment designator (the argument, or \<^verbatim>\<open>NODE_ENV\<close> when the argument is
  absent) is truthy returns that same instance, every later call without one returns
  nothing, and no later call builds a second \<^verbatim>\<open>StatsClient\<close> (with its ledger), a second
  StatsD client or a second timer.
\<close>

theorem init_is_a_singleton:
  assumes "init pr t0 e0 l0 p0 = (Some i, p)"
    and "init_calls pr calls p = (rs, p')"
  shows "rs = map (\<lambda>(t, e, l). if truthy (default_environement e p) then Some i else None) calls
         \<and> instance p' = Some i \<and> objects p' = objects p
         \<and> statsd_clients p' = statsd_clients p \<and> intervals p' = intervals p"
  using init_calls_with_instance [OF init_returns_instance [OF assms(1)] assms(2)] by simp

theorem init_is_a_singleton_witness:
  "init string_of_int None (Some ''production'') None (fresh_process None :: (int, int) Process) =
     (Some 0,
      \<lparr>NODE_ENV = None, instance = Some 0,
       objects = [\<lparr>interval = Some 0, metrics = [], client = 0, logger = None\<rparr>],
       statsd_clients = [Some ''uds''], intervals = [(600000::int, 0)], logged = []\<rparr>)
   \<and> fst (init_calls string_of_int [(None, None, None), (Some (5::int), Some ''dev'', Some 1), (None, Some '''', Some 1)]
       \<lparr>NODE_ENV = None, instance = Some 0,
        objects = [\<lparr>interval = Some 0, metrics = [], client = 0, logger = None\<rparr> :: int StatsClient],
        statsd_clients = [Some ''uds''], intervals = [(600000::int, 0)], logged = []\<rparr>)
     = [None, Some 0, None]
   \<and> objects (snd (init_calls string_of_int
         [(None, None, None), (Some (5::int), Some ''dev'', Some 1), (None, Some '''', Some 1)]
         \<lparr>NODE_ENV = None, instance = Some 0,
          objects = [\<lparr>interval = Some 0, metrics = [], client = 0, logger = None\<rparr> :: int StatsClient],
          statsd_clients = [Some ''uds''], intervals = [(600000::int, 0)], logged = []\<rparr>))
     = [\<lparr>interval = Some 0, metrics = [], client = 0, logger = None\<rparr>]"
proof -
  let ?p = "\<lparr>NODE_ENV = None, instance = Some 0,
       objects = [\<lparr>interval = Some 0, metrics = [], client = 0, logger = None\<rparr> :: int StatsClient],
       statsd_clients = [Some ''uds''], intervals = [(600000::int, 0)], logged = []\<rparr>"
  let ?calls = "[(None, None, None), (Some (5::int), Some ''dev'', Some 1), (None, Some '''', Some 1)]"
  have h1: "init string_of_int None (Some ''production'') None (fresh_process None :: (int, int) Process) = (Some 0, ?p)"
    by (simp add: init_def default_timerInMs_def default_environement_def fresh_process_def
        new_StatsClient_def Let_def)
  have h2: "init_calls string_of_int ?calls ?p =
        (fst (init_calls string_of_int ?calls ?p), snd (init_calls string_of_int ?calls ?p))"
    by simp
  from init_is_a_singleton [OF h1 h2] h1 show ?thesis
    by (simp add: default_environement_def)
qed

end
